theory Spec2Isabelle
  imports Main
begin

section \<open>Data model of lib/Router.js\<close>

text \<open>
  A StateList is an ordered list of state names, a URL and an error message are strings.
  A promise is identified by a number; promises are allocated in increasing order.
\<close>

type_synonym stateList = "string list"
type_synonym url = string
type_synonym err = string
type_synonym pid = nat

text \<open>
  A truthy value found in \<^verbatim>\<open>history.state\<close> or \<^verbatim>\<open>e.state\<close>: \<open>Own u\<close> is the object
  \<^verbatim>\<open>{statefulControllerRouterUrl: {url: u}}\<close> built by \<^verbatim>\<open>_urlToHistoryState\<close>,
  \<open>Foreign x\<close> is any other truthy value (\<open>x\<close> names it): one whose
  \<^verbatim>\<open>statefulControllerRouterUrl\<close> property is missing.
\<close>

datatype hrecord = Foreign string | Own url

text \<open>
  Any value of \<^verbatim>\<open>history.state\<close> or \<^verbatim>\<open>e.state\<close>: \<open>HNull\<close> is \<^verbatim>\<open>null\<close>, \<open>HFalsy x\<close> is a
  value that is not \<^verbatim>\<open>null\<close> and yet falsy (\<^verbatim>\<open>0\<close>, \<^verbatim>\<open>false\<close>, \<^verbatim>\<open>''\<close>; \<open>x\<close> names it),
  \<open>HRecord h\<close> is a truthy value. The history API stores whatever value the page gave to
  \<^verbatim>\<open>pushState\<close> or \<^verbatim>\<open>replaceState\<close>.
\<close>

datatype hstate = HNull | HFalsy string | HRecord hrecord

text \<open>
  The \<^verbatim>\<open>urlStateMap\<close> collaborator. Both functions may throw: \<open>Inl e\<close> is the error thrown.
\<close>

record urlStateMap =
  toURL :: "stateList \<Rightarrow> err + url"
  fromURL :: "url \<Rightarrow> err + stateList"

text \<open>How a promise settles: resolved with \<^verbatim>\<open>null\<close>, or rejected with an error.\<close>

datatype outcome = Resolved | Rejected err

text \<open>
  The events lib/Router.js emits, with their arguments: \<^verbatim>\<open>transitionComplete\<close>,
  \<^verbatim>\<open>upgradeInitialState\<close> and \<^verbatim>\<open>historyPopState\<close>. There is no other \<^verbatim>\<open>emit\<close> in the
  file.
\<close>

datatype notification =
    TransitionComplete stateList url
  | UpgradeInitialState stateList url pid
  | HistoryPopState stateList url pid

text \<open>
  What the router does to its collaborators, in the order it does it:
  \<^item> \<open>AddPopStateListener\<close>: \<^verbatim>\<open>window.addEventListener('popstate', ...)\<close>;
  \<^item> \<open>CtrlState sl upgrade\<close>: \<^verbatim>\<open>frontController.state(sl, upgrade)\<close> is called;
  \<^item> \<open>PushState h u\<close>, \<open>ReplaceState h u\<close>: \<^verbatim>\<open>window.history.pushState(h, '', u)\<close> and
    \<^verbatim>\<open>replaceState\<close>;
  \<^item> \<open>Emit n cur\<close>: \<^verbatim>\<open>this.emit(...)\<close>; \<open>cur\<close> is the value of \<^verbatim>\<open>currentStateList\<close> a
    listener reads at that moment;
  \<^item> \<open>Settled p out\<close>: promise \<open>p\<close> settles with \<open>out\<close>.
\<close>

datatype obs =
    AddPopStateListener
  | CtrlState stateList bool
  | PushState hrecord url
  | ReplaceState hrecord url
  | Emit notification "stateList option"
  | Settled pid outcome

text \<open>
  The promise chain hung on one call of \<^verbatim>\<open>frontController.state\<close>, with the variables
  its handlers close over. The first \<open>pid\<close> is the promise at the end of the chain (the one
  stored in \<^verbatim>\<open>_pendingTransitionPromise\<close>).
  \<^item> \<open>EnterChain p stateList pushHistory\<close>: built by \<^verbatim>\<open>enterStates\<close>;
  \<^item> \<open>HistoryChain p stateList url\<close>: built by \<^verbatim>\<open>_handleHistoryState\<close>;
  \<^item> \<open>QueuedChain p stateList fromHistory push q\<close>: built by \<^verbatim>\<open>_doQueuedTransition\<close>;
    \<open>fromHistory\<close> is \<open>None\<close> for \<^verbatim>\<open>false\<close> and \<open>Some url\<close> otherwise, \<open>q\<close> is the queue's
    promise, whose \<^verbatim>\<open>resolve\<close> and \<^verbatim>\<open>reject\<close> end the chain.
\<close>

datatype chain =
    EnterChain pid stateList bool
  | HistoryChain pid stateList url
  | QueuedChain pid stateList "url option" bool pid

text \<open>
  An occupied \<^verbatim>\<open>_queue\<close>. \<^verbatim>\<open>_addToQueue\<close> sets \<^verbatim>\<open>hasEntry\<close>, \<^verbatim>\<open>stateList\<close>,
  \<^verbatim>\<open>fromHistory\<close>, \<^verbatim>\<open>upgrade\<close>, \<^verbatim>\<open>push\<close> and makes sure \<^verbatim>\<open>promise\<close> is set;
  \<^verbatim>\<open>_doQueuedTransition\<close> resets all of them at once. So the object is either empty
  (\<^verbatim>\<open>hasEntry\<close> false, no promise: \<open>None\<close> below) or holds all of these fields.
\<close>

record queued =
  q_stateList :: stateList
  q_fromHistory :: "url option"
  q_upgrade :: bool
  q_push :: bool
  q_promise :: pid

text \<open>
  The Router object, followed by three fields for its surroundings: \<open>ops\<close> are the calls
  of \<^verbatim>\<open>frontController.state\<close> that have not settled yet, each with the chain hung on it,
  \<open>next_pid\<close> is the next unused promise number and \<open>trace\<close> the actions so far.
\<close>

record router =
  currentStateList :: "stateList option"
  pendingTransitionPromise :: "pid option"
  pendingReplace :: "stateList option"
  initialHistoryState :: "hrecord option"
  queue :: "queued option"
  ops :: "chain list"
  next_pid :: pid
  trace :: "obs list"

text \<open>
  The fields as the constructor sets them. The checks of the three arguments, which throw
  before a router exists, are left out.
\<close>

definition newRouter :: router where
  "newRouter = \<lparr> currentStateList = None, pendingTransitionPromise = None,
     pendingReplace = None, initialHistoryState = None, queue = None,
     ops = [], next_pid = 0, trace = [] \<rparr>"

section \<open>Operations\<close>

definition pending :: "router \<Rightarrow> bool" where
  "pending r = (pendingTransitionPromise r \<noteq> None)"

definition act :: "obs \<Rightarrow> router \<Rightarrow> router" where
  "act a r = r\<lparr> trace := trace r @ [a] \<rparr>"

text \<open>
  \<^verbatim>\<open>this.emit(...)\<close>. The listeners are code of the application: they are taken to return
  without throwing. A call of the router made by a listener of \<^verbatim>\<open>upgradeInitialState\<close> or
  \<^verbatim>\<open>historyPopState\<close> comes at the end of \<^verbatim>\<open>_handleHistoryState\<close> and is the same as a call
  made next. Calls made by a listener of \<^verbatim>\<open>transitionComplete\<close> come in the middle of a
  chain: \<open>settle\<close> below is the step without such calls, \<open>settleWith\<close> the step with them.
\<close>

definition emit :: "notification \<Rightarrow> router \<Rightarrow> router" where
  "emit n r = act (Emit n (currentStateList r)) r"

definition pendingError :: err where
  "pendingError = ''A previous state transition is still pending''"

text \<open>
  \<^verbatim>\<open>this._pendingTransitionPromise = this.frontController.state(stateList, upgrade)...\<close>:
  the controller is called, the chain \<open>mk p\<close> is hung on the call, and its last promise \<open>p\<close>
  is stored.
\<close>

definition startTransition :: "stateList \<Rightarrow> bool \<Rightarrow> (pid \<Rightarrow> chain) \<Rightarrow> router \<Rightarrow> router" where
  "startTransition sl upgrade mk r =
     (let p = next_pid r in
      r\<lparr> pendingTransitionPromise := Some p,
         ops := ops r @ [mk p],
         next_pid := Suc p,
         trace := trace r @ [CtrlState sl upgrade] \<rparr>)"

definition urlToHistoryState :: "url \<Rightarrow> hrecord" where
  "urlToHistoryState u = Own u"

text \<open>\<^verbatim>\<open>_pushHistoryState\<close>: \<open>Inl e\<close> when \<^verbatim>\<open>toURL\<close> throws \<open>e\<close>, before anything is written.\<close>

definition pushHistoryState :: "urlStateMap \<Rightarrow> stateList \<Rightarrow> bool \<Rightarrow> router \<Rightarrow> (err + url) \<times> router" where
  "pushHistoryState m sl push r =
     (case toURL m sl of
        Inl e \<Rightarrow> (Inl e, r)
      | Inr u \<Rightarrow>
          (Inr u, act (if push then PushState (urlToHistoryState u) u
                       else ReplaceState (urlToHistoryState u) u) r))"

text \<open>\<^verbatim>\<open>if (pushHistory === void 123) pushHistory = true\<close>\<close>

definition pushFlag :: "bool option \<Rightarrow> bool" where
  "pushFlag pushHistory = (case pushHistory of None \<Rightarrow> True | Some b \<Rightarrow> b)"

text \<open>
  \<^verbatim>\<open>enterStates\<close>. \<open>pushHistory\<close> is \<open>None\<close> when the argument is left out. The function is
  wrapped in \<^verbatim>\<open>Promise.method\<close>: \<open>Inl e\<close> is a promise already rejected with \<open>e\<close>, \<open>Inr p\<close> a
  promise that settles as \<open>p\<close> does.
\<close>

definition enterStates :: "stateList \<Rightarrow> bool option \<Rightarrow> router \<Rightarrow> (err + pid) \<times> router" where
  "enterStates sl pushHistory r =
     (let push = pushFlag pushHistory in
      if pending r then (Inl pendingError, r)
      else (Inr (next_pid r), startTransition sl False (\<lambda>p. EnterChain p sl push) r))"

text \<open>\<^verbatim>\<open>_addToQueue\<close>: one entry only; the promise is made when there is none yet.\<close>

definition addToQueue :: "stateList \<Rightarrow> url option \<Rightarrow> bool \<Rightarrow> bool \<Rightarrow> router \<Rightarrow> pid \<times> router" where
  "addToQueue sl fromHist upgrade push r =
     (case queue r of
        Some q \<Rightarrow>
          (q_promise q,
           r\<lparr> queue := Some \<lparr> q_stateList = sl, q_fromHistory = fromHist, q_upgrade = upgrade,
                              q_push = push, q_promise = q_promise q \<rparr> \<rparr>)
      | None \<Rightarrow>
          (next_pid r,
           r\<lparr> queue := Some \<lparr> q_stateList = sl, q_fromHistory = fromHist, q_upgrade = upgrade,
                              q_push = push, q_promise = next_pid r \<rparr>,
              next_pid := Suc (next_pid r) \<rparr>))"

definition queueEnterStates :: "stateList \<Rightarrow> bool option \<Rightarrow> router \<Rightarrow> (err + pid) \<times> router" where
  "queueEnterStates sl pushHistory r =
     (let push = pushFlag pushHistory in
      if pending r then (case addToQueue sl None False push r of (p, r') \<Rightarrow> (Inr p, r'))
      else enterStates sl (Some push) r)"

text \<open>\<^verbatim>\<open>replaceStateList\<close>: \<open>Inl e\<close> when \<^verbatim>\<open>toURL\<close> throws \<open>e\<close>.\<close>

definition replaceStateList :: "urlStateMap \<Rightarrow> stateList \<Rightarrow> router \<Rightarrow> (err + unit) \<times> router" where
  "replaceStateList m sl r =
     (if pending r then (Inr (), r\<lparr> pendingReplace := Some sl \<rparr>)
      else (case pushHistoryState m sl False (r\<lparr> currentStateList := Some sl \<rparr>) of
              (Inl e, r') \<Rightarrow> (Inl e, r')
            | (Inr u, r') \<Rightarrow> (Inr (), r')))"

text \<open>
  \<^verbatim>\<open>_saveStateAsInitial\<close>. \<open>hs\<close> is what \<^verbatim>\<open>window.history.state\<close> holds when it is read and
  \<open>path\<close> is \<^verbatim>\<open>location.pathname + location.search\<close>.
\<close>

definition saveStateAsInitial :: "hstate \<Rightarrow> string \<Rightarrow> router \<Rightarrow> router" where
  "saveStateAsInitial hs path r =
     (case hs of
        HRecord (Own u) \<Rightarrow> r\<lparr> initialHistoryState := Some (Own u) \<rparr>
      | _ \<Rightarrow> r\<lparr> initialHistoryState := Some (urlToHistoryState path) \<rparr>)"

text \<open>
  \<^verbatim>\<open>_handleHistoryState\<close>. \<open>ev\<close> builds the event to emit. The result is \<open>Inl e\<close> when
  \<^verbatim>\<open>fromURL\<close> throws \<open>e\<close>, \<open>Inr None\<close> for \<^verbatim>\<open>undefined\<close>, \<open>Inr (Some p)\<close> for a promise.
\<close>

definition handleHistoryState ::
  "urlStateMap \<Rightarrow> hrecord option \<Rightarrow> bool \<Rightarrow> (stateList \<Rightarrow> url \<Rightarrow> pid \<Rightarrow> notification) \<Rightarrow> router
     \<Rightarrow> (err + pid option) \<times> router" where
  "handleHistoryState m historyState upgrade ev r =
     (case historyState of
        None \<Rightarrow> (Inr None, r)
      | Some (Foreign x) \<Rightarrow> (Inr None, r)
      | Some (Own u) \<Rightarrow>
          (case fromURL m u of
             Inl e \<Rightarrow> (Inl e, r)
           | Inr sl \<Rightarrow>
               (case (if pending r then addToQueue sl (Some u) upgrade False r
                      else (next_pid r, startTransition sl upgrade (\<lambda>p. HistoryChain p sl u) r)) of
                  (p, r') \<Rightarrow> (Inr (Some p), emit (ev sl u p) r'))))"

definition upgradeInitialState ::
  "urlStateMap \<Rightarrow> hstate \<Rightarrow> string \<Rightarrow> router \<Rightarrow> (err + pid option) \<times> router" where
  "upgradeInitialState m hs path r =
     (let r' = saveStateAsInitial hs path r in
      handleHistoryState m (initialHistoryState r') True UpgradeInitialState r')"

definition attachPopStateListener :: "hstate \<Rightarrow> string \<Rightarrow> router \<Rightarrow> router" where
  "attachPopStateListener hs path r =
     (let r' = act AddPopStateListener r in
      if initialHistoryState r' = None then saveStateAsInitial hs path r' else r')"

text \<open>
  \<^verbatim>\<open>e.state || this._initialHistoryState\<close>, with \<open>e_state\<close> for \<^verbatim>\<open>e.state\<close>: a truthy state
  is taken, and both \<^verbatim>\<open>null\<close> and a falsy state give way to the stored initial record.
\<close>

definition effectiveRecord :: "hstate \<Rightarrow> router \<Rightarrow> hrecord option" where
  "effectiveRecord e_state r =
     (case e_state of
        HRecord h \<Rightarrow> Some h
      | HNull \<Rightarrow> initialHistoryState r
      | HFalsy x \<Rightarrow> initialHistoryState r)"

text \<open>
  \<^verbatim>\<open>_onpopstate\<close>. It has no \<^verbatim>\<open>return\<close>: the result is \<^verbatim>\<open>undefined\<close>, or \<open>Inl e\<close> when
  \<^verbatim>\<open>fromURL\<close> throws \<open>e\<close>.
\<close>

definition onpopstate :: "urlStateMap \<Rightarrow> hstate \<Rightarrow> router \<Rightarrow> (err + unit) \<times> router" where
  "onpopstate m e_state r =
     (case handleHistoryState m (effectiveRecord e_state r) False HistoryPopState r of
        (Inl e, r') \<Rightarrow> (Inl e, r')
      | (Inr p, r') \<Rightarrow> (Inr (), r'))"

text \<open>\<^verbatim>\<open>_doQueuedTransition\<close>.\<close>

definition doQueuedTransition :: "router \<Rightarrow> router" where
  "doQueuedTransition r =
     (case queue r of
        None \<Rightarrow> r
      | Some q \<Rightarrow>
          startTransition (q_stateList q) (q_upgrade q)
            (\<lambda>p. QueuedChain p (q_stateList q) (q_fromHistory q) (q_push q) (q_promise q))
            (r\<lparr> queue := None \<rparr>))"

text \<open>\<^verbatim>\<open>this._pendingReplace || stateList\<close>\<close>

definition replaceOr :: "router \<Rightarrow> stateList \<Rightarrow> stateList" where
  "replaceOr r sl = (case pendingReplace r of Some x \<Rightarrow> x | None \<Rightarrow> sl)"

text \<open>
  The \<^verbatim>\<open>.then\<close> handler of each chain, run when the controller's promise resolves. The
  outcome is that of the promise \<^verbatim>\<open>.then\<close> returns: rejected when the handler throws.
\<close>

fun thenHandler :: "urlStateMap \<Rightarrow> chain \<Rightarrow> router \<Rightarrow> outcome \<times> router" where
  "thenHandler m (EnterChain p sl pushHistory) r =
     (let cur = replaceOr r sl in
      case pushHistoryState m cur pushHistory (r\<lparr> currentStateList := Some cur \<rparr>) of
        (Inl e, r') \<Rightarrow> (Rejected e, r')
      | (Inr u, r') \<Rightarrow> (Resolved, emit (TransitionComplete sl u) r'))"
| "thenHandler m (HistoryChain p sl u) r =
     (Resolved, emit (TransitionComplete sl u) (r\<lparr> currentStateList := Some sl \<rparr>))"
| "thenHandler m (QueuedChain p sl fromHist push q) r =
     (let cur = replaceOr r sl; r1 = r\<lparr> currentStateList := Some cur \<rparr> in
      case fromHist of
        None \<Rightarrow>
          (case pushHistoryState m cur push r1 of
             (Inl e, r') \<Rightarrow> (Rejected e, r')
           | (Inr u, r') \<Rightarrow> (Resolved, emit (TransitionComplete sl u) r'))
      | Some u \<Rightarrow> (Resolved, emit (TransitionComplete sl u) r1))"

text \<open>The \<^verbatim>\<open>.finally\<close> handler of each chain.\<close>

fun finallyHandler :: "chain \<Rightarrow> router \<Rightarrow> router" where
  "finallyHandler (EnterChain p sl pushHistory) r =
     doQueuedTransition (r\<lparr> pendingReplace := None, pendingTransitionPromise := None \<rparr>)"
| "finallyHandler (HistoryChain p sl u) r =
     doQueuedTransition (r\<lparr> pendingTransitionPromise := None \<rparr>)"
| "finallyHandler (QueuedChain p sl fromHist push q) r =
     doQueuedTransition (r\<lparr> pendingTransitionPromise := None, pendingReplace := None \<rparr>)"

text \<open>
  The rest of each chain after \<^verbatim>\<open>.finally\<close>: \<^verbatim>\<open>.return(null)\<close>, and for a queued
  transition \<^verbatim>\<open>.then(resolve, reject).return(null)\<close>, which settles the queue's promise
  and always resolves the chain's own.
\<close>

fun chainEnd :: "chain \<Rightarrow> outcome \<Rightarrow> router \<Rightarrow> router" where
  "chainEnd (EnterChain p sl pushHistory) out r = act (Settled p out) r"
| "chainEnd (HistoryChain p sl u) out r = act (Settled p out) r"
| "chainEnd (QueuedChain p sl fromHist push q) out r =
     act (Settled p Resolved) (act (Settled q out) r)"

text \<open>The promise through which the caller of a transition learns its outcome.\<close>

fun outcomePromise :: "chain \<Rightarrow> pid" where
  "outcomePromise (EnterChain p sl pushHistory) = p"
| "outcomePromise (HistoryChain p sl u) = p"
| "outcomePromise (QueuedChain p sl fromHist push q) = q"

text \<open>
  The controller's promise of chain \<open>c\<close> settles with \<open>out\<close>: the handlers run one after the
  other. A rejection skips \<^verbatim>\<open>.then\<close> and \<^verbatim>\<open>.return\<close> and passes through \<^verbatim>\<open>.finally\<close>.
  The handlers of one chain run as one step: the call of the controller is the only place
  where a transition waits, and no call of the API comes between two handlers. What a
  continuation on the promise of the transition reads is the router at the end of the step.
\<close>

definition runChain :: "urlStateMap \<Rightarrow> chain \<Rightarrow> outcome \<Rightarrow> router \<Rightarrow> router" where
  "runChain m c out r =
     (case (case out of Resolved \<Rightarrow> thenHandler m c r | Rejected e \<Rightarrow> (Rejected e, r)) of
        (out', r') \<Rightarrow> chainEnd c out' (finallyHandler c r'))"

text \<open>The \<open>k\<close>-th outstanding call of the controller settles.\<close>

definition settle :: "urlStateMap \<Rightarrow> nat \<Rightarrow> outcome \<Rightarrow> router \<Rightarrow> router" where
  "settle m k out r =
     (if k < length (ops r)
      then runChain m (ops r ! k) out (r\<lparr> ops := take k (ops r) @ drop (Suc k) (ops r) \<rparr>)
      else r)"

section \<open>Runs\<close>

text \<open>
  What can happen to a router: a call of its API (with what the window holds at that
  moment, where the call reads it), a popstate event, or the settling of a call of the
  controller.
\<close>

datatype event =
    CallEnterStates stateList "bool option"
  | CallQueueEnterStates stateList "bool option"
  | CallReplaceStateList stateList
  | CallUpgradeInitialState hstate string
  | CallAttachPopStateListener hstate string
  | PopState hstate
  | CtrlSettles nat outcome

fun step :: "urlStateMap \<Rightarrow> event \<Rightarrow> router \<Rightarrow> router" where
  "step m (CallEnterStates sl ph) r = snd (enterStates sl ph r)"
| "step m (CallQueueEnterStates sl ph) r = snd (queueEnterStates sl ph r)"
| "step m (CallReplaceStateList sl) r = snd (replaceStateList m sl r)"
| "step m (CallUpgradeInitialState hs path) r = snd (upgradeInitialState m hs path r)"
| "step m (CallAttachPopStateListener hs path) r = attachPopStateListener hs path r"
| "step m (PopState e_state) r = snd (onpopstate m e_state r)"
| "step m (CtrlSettles k out) r = settle m k out r"

fun run :: "urlStateMap \<Rightarrow> event list \<Rightarrow> router \<Rightarrow> router" where
  "run m [] r = r"
| "run m (e # es) r = run m es (step m e r)"

text \<open>
  The same step as \<open>settle\<close> when the listeners of \<^verbatim>\<open>transitionComplete\<close> call the router:
  \<open>ls\<close> are their calls, in order. \<^verbatim>\<open>emit\<close> is the last statement of every \<^verbatim>\<open>.then\<close>
  handler and calls the listeners at once, so the calls are made after the handler's own
  work, before \<^verbatim>\<open>.finally\<close>, and only when the handler got as far as \<^verbatim>\<open>emit\<close>. The router
  is still pending then.
\<close>

definition settleWith :: "urlStateMap \<Rightarrow> nat \<Rightarrow> outcome \<Rightarrow> event list \<Rightarrow> router \<Rightarrow> router" where
  "settleWith m k out ls r =
     (if k < length (ops r)
      then (case (case out of
                    Resolved \<Rightarrow>
                      thenHandler m (ops r ! k) (r\<lparr> ops := take k (ops r) @ drop (Suc k) (ops r) \<rparr>)
                  | Rejected e \<Rightarrow>
                      (Rejected e, r\<lparr> ops := take k (ops r) @ drop (Suc k) (ops r) \<rparr>)) of
              (out', r') \<Rightarrow>
                chainEnd (ops r ! k) out'
                  (finallyHandler (ops r ! k) (if out' = Resolved then run m ls r' else r')))
      else r)"

text \<open>The actions added to the trace between \<open>r\<close> and a later \<open>r'\<close>.\<close>

definition since :: "router \<Rightarrow> router \<Rightarrow> obs list" where
  "since r r' = drop (length (trace r)) (trace r')"

fun isWrite :: "obs \<Rightarrow> bool" where
  "isWrite (PushState h u) = True"
| "isWrite (ReplaceState h u) = True"
| "isWrite a = False"

fun isEmit :: "obs \<Rightarrow> bool" where
  "isEmit (Emit n cur) = True"
| "isEmit a = False"

fun isCtrl :: "obs \<Rightarrow> bool" where
  "isCtrl (CtrlState sl upgrade) = True"
| "isCtrl a = False"


fun isSettle :: "event \<Rightarrow> bool" where
  "isSettle (CtrlSettles k out) = True"
| "isSettle e = False"

fun isReplace :: "event \<Rightarrow> bool" where
  "isReplace (CallReplaceStateList sl) = True"
| "isReplace e = False"

fun isComplete :: "obs \<Rightarrow> bool" where
  "isComplete (Emit (TransitionComplete sl u) cur) = True"
| "isComplete a = False"

text \<open>
  \<open>allBefore P Q as\<close>: in the list \<open>as\<close> every action with \<open>P\<close> comes strictly before every
  action with \<open>Q\<close>.
\<close>

fun allBefore :: "(obs \<Rightarrow> bool) \<Rightarrow> (obs \<Rightarrow> bool) \<Rightarrow> obs list \<Rightarrow> bool" where
  "allBefore P Q [] = True"
| "allBefore P Q (a # as) =
     ((if Q a then \<not> P a \<and> \<not> list_ex P as else True) \<and> allBefore P Q as)"

text \<open>
  The guard of \<^verbatim>\<open>_handleHistoryState\<close>:
  \<^verbatim>\<open>historyState && historyState.statefulControllerRouterUrl\<close>.
\<close>

fun hasTag :: "hrecord option \<Rightarrow> bool" where
  "hasTag (Some (Own u)) = True"
| "hasTag h = False"

text \<open>
  At most one call of the controller is outstanding, the router is pending exactly then,
  and the queue is empty when it is not.
\<close>

definition singleFlight :: "router \<Rightarrow> bool" where
  "singleFlight r =
     (case ops r of
        [] \<Rightarrow> \<not> pending r \<and> queue r = None
      | [a] \<Rightarrow> pending r
      | _ \<Rightarrow> False)"

fun isCapture :: "event \<Rightarrow> bool" where
  "isCapture (CallUpgradeInitialState hs path) = True"
| "isCapture (CallAttachPopStateListener hs path) = True"
| "isCapture e = False"





text \<open>The codec of the test suite: three states and their paths.\<close>

definition testMap :: urlStateMap where
  "testMap = \<lparr>
     toURL = (\<lambda>sl. if sl = [''foo''] then Inr ''/foo''
                   else if sl = [''bar''] then Inr ''/bar''
                   else if sl = [''baz''] then Inr ''/baz''
                   else Inl ''Should not occur in this test case''),
     fromURL = (\<lambda>u. if u = ''/foo'' then Inr [''foo'']
                    else if u = ''/bar'' then Inr [''bar'']
                    else if u = ''/baz'' then Inr [''baz'']
                    else Inl ''Should not occur in this test case'') \<rparr>"

section \<open>Unfolding the operations\<close>

lemmas op_defs = enterStates_def queueEnterStates_def replaceStateList_def addToQueue_def
  handleHistoryState_def upgradeInitialState_def attachPopStateListener_def onpopstate_def
  effectiveRecord_def saveStateAsInitial_def doQueuedTransition_def startTransition_def
  pushHistoryState_def urlToHistoryState_def act_def emit_def pending_def replaceOr_def
  since_def Let_def

lemmas settle_defs = settle_def runChain_def

section \<open>One transition at a time\<close>

lemma singleFlight_cases:
  "singleFlight r \<longleftrightarrow>
     (ops r = [] \<and> \<not> pending r \<and> queue r = None) \<or> (\<exists>a. ops r = [a] \<and> pending r)"
  by (auto simp: singleFlight_def split: list.splits)

lemma singleFlight_step:
  assumes "singleFlight r"
  shows "singleFlight (step m ev r)"
proof (cases ev)
  case (CtrlSettles k out)
  show ?thesis
  proof (cases "k < length (ops r)")
    case False
    with assms show ?thesis unfolding CtrlSettles by (simp add: settle_def)
  next
    case True
    with assms obtain a where a: "ops r = [a]" "k = 0"
      by (auto simp: singleFlight_cases)
    show ?thesis
      unfolding CtrlSettles singleFlight_cases step.simps
      using a
      by (cases a; cases out)
         (auto simp: settle_defs op_defs split: option.splits sum.splits)
  qed
qed (use assms in \<open>auto simp: singleFlight_cases op_defs
       split: option.splits hrecord.splits hstate.splits sum.splits\<close>)

text \<open>Every router reached from a new one by calls, popstate events and settlements.\<close>

lemma singleFlight_run:
  "singleFlight r \<Longrightarrow> singleFlight (run m evs r)"
  by (induction evs arbitrary: r) (simp_all add: singleFlight_step)

lemma singleFlight_newRouter: "singleFlight (run m evs newRouter)"
  by (rule singleFlight_run) (simp add: singleFlight_def newRouter_def pending_def)

section \<open>The non-queuing entry point while a transition runs\<close>

text \<open>
  C3. A call of \<^verbatim>\<open>enterStates\<close> while a transition is pending returns a promise rejected
  with the error "A previous state transition is still pending" and leaves the whole
  router as it was: the controller is not called, nothing is written to the history stack
  (the trace is the same), and \<^verbatim>\<open>currentStateList\<close>, the queue and the outstanding
  transition are untouched.
\<close>

theorem enterStates_rejects_while_pending:
  assumes "pending r"
  shows "enterStates sl pushHistory r =
           (Inl ''A previous state transition is still pending'', r)"
  using assms by (simp add: enterStates_def pendingError_def)

theorem enterStates_rejects_while_pending_witness:
  "pending (run testMap [CallEnterStates [''foo''] None] newRouter) \<and>
   enterStates [''bar''] None (run testMap [CallEnterStates [''foo''] None] newRouter) =
     (Inl ''A previous state transition is still pending'',
      run testMap [CallEnterStates [''foo''] None] newRouter)"
proof -
  have h: "pending (run testMap [CallEnterStates [''foo''] None] newRouter)"
    by code_simp
  from enterStates_rejects_while_pending [OF h] h show ?thesis
    by blast
qed

section \<open>Records of other origin\<close>

text \<open>
  C9, as stated: a popstate event whose record, if not \<^verbatim>\<open>null\<close>, lacks the router's tag
  has no effect. The run: the listener is attached at location \<open>/foo\<close>, so the record of
  \<open>/foo\<close> is captured; then a popstate event arrives whose state is \<^verbatim>\<open>0\<close>, a value that is
  not \<^verbatim>\<open>null\<close> and has no \<^verbatim>\<open>statefulControllerRouterUrl\<close>. The state is falsy, so the
  router falls back to the captured record: it calls the controller for \<open>['foo']\<close>, emits
  \<^verbatim>\<open>historyPopState\<close> and is pending.
\<close>

theorem popstate_falsy_state_navigates:
  "effectiveRecord (HFalsy ''0'') (run testMap [CallAttachPopStateListener HNull ''/foo''] newRouter)
     = Some (Own ''/foo'') \<and>
   trace (run testMap [CallAttachPopStateListener HNull ''/foo''] newRouter)
     = [AddPopStateListener] \<and>
   trace (snd (onpopstate testMap (HFalsy ''0'')
            (run testMap [CallAttachPopStateListener HNull ''/foo''] newRouter)))
     = [AddPopStateListener, CtrlState [''foo''] False,
        Emit (HistoryPopState [''foo''] ''/foo'' 0) None] \<and>
   pending (snd (onpopstate testMap (HFalsy ''0'')
            (run testMap [CallAttachPopStateListener HNull ''/foo''] newRouter))) \<and>
   snd (onpopstate testMap (HFalsy ''0'')
            (run testMap [CallAttachPopStateListener HNull ''/foo''] newRouter))
     \<noteq> run testMap [CallAttachPopStateListener HNull ''/foo''] newRouter"
proof -
  have a: "effectiveRecord (HFalsy ''0'')
             (run testMap [CallAttachPopStateListener HNull ''/foo''] newRouter)
           = Some (Own ''/foo'')"
    by code_simp
  have b: "trace (run testMap [CallAttachPopStateListener HNull ''/foo''] newRouter)
           = [AddPopStateListener]"
    by code_simp
  have c: "trace (snd (onpopstate testMap (HFalsy ''0'')
            (run testMap [CallAttachPopStateListener HNull ''/foo''] newRouter)))
     = [AddPopStateListener, CtrlState [''foo''] False,
        Emit (HistoryPopState [''foo''] ''/foo'' 0) None]"
    by code_simp
  have d: "pending (snd (onpopstate testMap (HFalsy ''0'')
            (run testMap [CallAttachPopStateListener HNull ''/foo''] newRouter)))"
    by code_simp
  have e: "snd (onpopstate testMap (HFalsy ''0'')
            (run testMap [CallAttachPopStateListener HNull ''/foo''] newRouter))
     \<noteq> run testMap [CallAttachPopStateListener HNull ''/foo''] newRouter"
    using b c by auto
  show ?thesis
    by (rule conjI [OF a conjI [OF b conjI [OF c conjI [OF d e]]]])
qed

text \<open>
  C9, amended. The effective record of a popstate event is the event's state if that is
  truthy, and the captured initial record otherwise: when the state is \<^verbatim>\<open>null\<close> and also
  when it is another falsy value. A popstate event whose effective record is absent or
  lacks the \<^verbatim>\<open>statefulControllerRouterUrl\<close> tag changes nothing: \<^verbatim>\<open>_onpopstate\<close> returns
  \<^verbatim>\<open>undefined\<close> and the router, with its trace of controller calls, history writes and
  notifications, is the same as before.
\<close>

theorem popstate_without_tag_ignored:
  assumes "\<not> hasTag (effectiveRecord e_state r)"
  shows "onpopstate m e_state r = (Inr (), r) \<and>
         effectiveRecord e_state r =
           (case e_state of HRecord h \<Rightarrow> Some h | _ \<Rightarrow> initialHistoryState r)"
proof (cases "effectiveRecord e_state r")
  case None
  then show ?thesis
    by (auto simp: onpopstate_def handleHistoryState_def effectiveRecord_def split: hstate.splits)
next
  case (Some h)
  with assms obtain x where "h = Foreign x" by (cases h) auto
  with Some show ?thesis
    by (auto simp: onpopstate_def handleHistoryState_def effectiveRecord_def split: hstate.splits)
qed

theorem popstate_without_tag_ignored_witness:
  "\<not> hasTag (effectiveRecord (HRecord (Foreign ''somethingThatIsNotOurs''))
              (run testMap [CallAttachPopStateListener HNull ''/foo''] newRouter)) \<and>
   (onpopstate testMap (HRecord (Foreign ''somethingThatIsNotOurs''))
       (run testMap [CallAttachPopStateListener HNull ''/foo''] newRouter) =
     (Inr (), run testMap [CallAttachPopStateListener HNull ''/foo''] newRouter) \<and>
    effectiveRecord (HRecord (Foreign ''somethingThatIsNotOurs''))
       (run testMap [CallAttachPopStateListener HNull ''/foo''] newRouter) =
     (case HRecord (Foreign ''somethingThatIsNotOurs'') of
        HRecord h \<Rightarrow> Some h
      | _ \<Rightarrow> initialHistoryState
               (run testMap [CallAttachPopStateListener HNull ''/foo''] newRouter))) \<and>
   \<not> hasTag (effectiveRecord (HFalsy ''0'') newRouter) \<and>
   onpopstate testMap (HFalsy ''0'') newRouter = (Inr (), newRouter)"
proof -
  have h: "\<not> hasTag (effectiveRecord (HRecord (Foreign ''somethingThatIsNotOurs''))
              (run testMap [CallAttachPopStateListener HNull ''/foo''] newRouter))"
    by (simp add: effectiveRecord_def)
  have h': "\<not> hasTag (effectiveRecord (HFalsy ''0'') newRouter)"
    by (simp add: effectiveRecord_def newRouter_def)
  note c = popstate_without_tag_ignored [OF h, of testMap]
  note c' = conjunct1 [OF popstate_without_tag_ignored [OF h', of testMap]]
  show ?thesis
    by (rule conjI [OF h conjI [OF c conjI [OF h' c']]])
qed

section \<open>Calls that do not settle a transition\<close>

text \<open>
  Every call of the API and every popstate event, except \<^verbatim>\<open>replaceStateList\<close> on an idle
  router, leaves \<^verbatim>\<open>currentStateList\<close> alone and adds neither a history write nor a
  \<^verbatim>\<open>transitionComplete\<close> to the trace. This holds for the calls that start a transition too.
\<close>

lemma call_trace:
  assumes "\<not> isSettle ev" and "\<not> (isReplace ev \<and> \<not> pending r)"
  shows "\<exists>xs. trace (step m ev r) = trace r @ xs \<and> filter isWrite xs = [] \<and>
              filter isComplete xs = []"
  using assms
  by (cases ev)
     (auto simp: op_defs split: option.splits hrecord.splits hstate.splits sum.splits)

lemma call_state:
  assumes "\<not> isSettle ev" and "\<not> (isReplace ev \<and> \<not> pending r)"
  shows "currentStateList (step m ev r) = currentStateList r"
  using assms
  by (cases ev)
     (auto simp: op_defs split: option.splits hrecord.splits hstate.splits sum.splits)


lemma quiet_step:
  assumes "\<not> isSettle ev" and "\<not> (isReplace ev \<and> \<not> pending r)"
  shows "currentStateList (step m ev r) = currentStateList r \<and>
         filter isWrite (since r (step m ev r)) = []"
proof -
  from call_trace [OF assms] obtain xs where
    "trace (step m ev r) = trace r @ xs" "filter isWrite xs = []"
    by blast
  then have "filter isWrite (since r (step m ev r)) = []"
    by (simp add: since_def)
  with call_state [OF assms] show ?thesis
    by simp
qed



section \<open>Settling with a rejection\<close>

text \<open>What a rejection of the \<open>k\<close>-th controller call adds to the trace.\<close>

lemma settle_rejected_trace:
  assumes "k < length (ops r)"
  shows "since r (settle m k (Rejected e) r) =
     (case queue r of None \<Rightarrow> [] | Some q \<Rightarrow> [CtrlState (q_stateList q) (q_upgrade q)]) @
     (case ops r ! k of
        QueuedChain p sl fh push q \<Rightarrow> [Settled q (Rejected e), Settled p Resolved]
      | c \<Rightarrow> [Settled (outcomePromise c) (Rejected e)])"
  using assms
  by (cases "ops r ! k") (auto simp: settle_defs op_defs split: option.splits)

lemma settle_rejected_fields:
  assumes "k < length (ops r)"
  shows "currentStateList (settle m k (Rejected e) r) = currentStateList r"
    and "queue (settle m k (Rejected e) r) = None"
    and "queue r = Some q \<Longrightarrow> pending (settle m k (Rejected e) r)"
    and "queue r = Some q \<Longrightarrow>
           ops (settle m k (Rejected e) r) =
             take k (ops r) @ drop (Suc k) (ops r) @
             [QueuedChain (next_pid r) (q_stateList q) (q_fromHistory q) (q_push q) (q_promise q)]"
  using assms
  by (cases "ops r ! k"; auto simp: settle_defs op_defs split: option.splits)+

lemma settle_rejected_idle:
  assumes "k < length (ops r)" and "queue r = None"
  shows "pendingTransitionPromise (settle m k (Rejected e) r) = None"
    and "ops (settle m k (Rejected e) r) = take k (ops r) @ drop (Suc k) (ops r)"
  using assms
  by (cases "ops r ! k"; auto simp: settle_defs op_defs split: option.splits)+

lemma settle_rejected_pending:
  assumes "k < length (ops r)" and "queue r = Some q"
  shows "pendingTransitionPromise (settle m k (Rejected e) r) = Some (next_pid r)"
  using assms
  by (cases "ops r ! k"; auto simp: settle_defs op_defs split: option.splits)

text \<open>
  C4. A transition whose controller operation rejects with \<open>e\<close>. No call of the API and no
  popstate event, in any state \<open>s\<close>, writes to the history stack or changes
  \<^verbatim>\<open>currentStateList\<close> (except \<^verbatim>\<open>replaceStateList\<close> on an idle router): neither the call that
  starts the transition nor a call made while it runs. In the step in which the rejection
  arrives, \<^verbatim>\<open>currentStateList\<close> is unchanged, nothing is written to the history stack, and
  the promise of the caller rejects with \<open>e\<close>: the step adds to the trace the controller
  call for a queued request, if there is one, and the settling of the promises, nothing
  else. The queue is empty afterwards. If no request was queued the router is idle again,
  the failed call is no longer outstanding, and a following \<^verbatim>\<open>enterStates\<close> is accepted and
  calls the controller. If a request was queued, it has been taken out of the queue, the
  controller has been called for it and the router is pending with its promise.
\<close>

theorem controller_failure_is_local:
  "(\<forall>ev. \<not> isSettle ev \<and> \<not> (isReplace ev \<and> \<not> pending s) \<longrightarrow>
      currentStateList (step m ev s) = currentStateList s \<and>
      filter isWrite (since s (step m ev s)) = []) \<and>
   (k < length (ops r) \<longrightarrow>
      (let r' = settle m k (Rejected e) r in
         currentStateList r' = currentStateList r \<and>
         filter isWrite (since r r') = [] \<and>
         Settled (outcomePromise (ops r ! k)) (Rejected e) \<in> set (since r r') \<and>
         since r r' =
           (case queue r of None \<Rightarrow> [] | Some q \<Rightarrow> [CtrlState (q_stateList q) (q_upgrade q)]) @
           (case ops r ! k of
              QueuedChain p sl fh push q \<Rightarrow> [Settled q (Rejected e), Settled p Resolved]
            | c \<Rightarrow> [Settled (outcomePromise c) (Rejected e)]) \<and>
         queue r' = None \<and>
         (queue r = None \<longrightarrow>
            \<not> pending r' \<and>
            ops r' = take k (ops r) @ drop (Suc k) (ops r) \<and>
            (\<forall>sl pushHistory.
               fst (enterStates sl pushHistory r') = Inr (next_pid r') \<and>
               since r' (snd (enterStates sl pushHistory r')) = [CtrlState sl False])) \<and>
         (\<forall>q. queue r = Some q \<longrightarrow>
            pending r' \<and>
            pendingTransitionPromise r' = Some (next_pid r) \<and>
            CtrlState (q_stateList q) (q_upgrade q) \<in> set (since r r') \<and>
            last (ops r') = QueuedChain (next_pid r) (q_stateList q) (q_fromHistory q)
                              (q_push q) (q_promise q) \<and>
            ops r' = take k (ops r) @ drop (Suc k) (ops r) @
                     [QueuedChain (next_pid r) (q_stateList q) (q_fromHistory q)
                        (q_push q) (q_promise q)])))"
proof -
  have a: "\<forall>ev. \<not> isSettle ev \<and> \<not> (isReplace ev \<and> \<not> pending s) \<longrightarrow>
      currentStateList (step m ev s) = currentStateList s \<and>
      filter isWrite (since s (step m ev s)) = []"
    using quiet_step by blast
  have b: "let r' = settle m k (Rejected e) r in
         currentStateList r' = currentStateList r \<and>
         filter isWrite (since r r') = [] \<and>
         Settled (outcomePromise (ops r ! k)) (Rejected e) \<in> set (since r r') \<and>
         since r r' =
           (case queue r of None \<Rightarrow> [] | Some q \<Rightarrow> [CtrlState (q_stateList q) (q_upgrade q)]) @
           (case ops r ! k of
              QueuedChain p sl fh push q \<Rightarrow> [Settled q (Rejected e), Settled p Resolved]
            | c \<Rightarrow> [Settled (outcomePromise c) (Rejected e)]) \<and>
         queue r' = None \<and>
         (queue r = None \<longrightarrow>
            \<not> pending r' \<and>
            ops r' = take k (ops r) @ drop (Suc k) (ops r) \<and>
            (\<forall>sl pushHistory.
               fst (enterStates sl pushHistory r') = Inr (next_pid r') \<and>
               since r' (snd (enterStates sl pushHistory r')) = [CtrlState sl False])) \<and>
         (\<forall>q. queue r = Some q \<longrightarrow>
            pending r' \<and>
            pendingTransitionPromise r' = Some (next_pid r) \<and>
            CtrlState (q_stateList q) (q_upgrade q) \<in> set (since r r') \<and>
            last (ops r') = QueuedChain (next_pid r) (q_stateList q) (q_fromHistory q)
                              (q_push q) (q_promise q) \<and>
            ops r' = take k (ops r) @ drop (Suc k) (ops r) @
                     [QueuedChain (next_pid r) (q_stateList q) (q_fromHistory q)
                        (q_push q) (q_promise q)])"
    if k: "k < length (ops r)"
  proof -
    note t = settle_rejected_trace [OF k, of m e]
    have w: "filter isWrite (since r (settle m k (Rejected e) r)) = []"
      unfolding t by (cases "ops r ! k") (auto split: option.splits)
    have st: "Settled (outcomePromise (ops r ! k)) (Rejected e)
                \<in> set (since r (settle m k (Rejected e) r))"
      unfolding t by (cases "ops r ! k") (auto split: option.splits)
    have idle: "queue r = None \<longrightarrow>
            \<not> pending (settle m k (Rejected e) r) \<and>
            ops (settle m k (Rejected e) r) = take k (ops r) @ drop (Suc k) (ops r) \<and>
            (\<forall>sl pushHistory.
               fst (enterStates sl pushHistory (settle m k (Rejected e) r))
                 = Inr (next_pid (settle m k (Rejected e) r)) \<and>
               since (settle m k (Rejected e) r)
                     (snd (enterStates sl pushHistory (settle m k (Rejected e) r)))
                 = [CtrlState sl False])"
    proof
      assume q: "queue r = None"
      note i = settle_rejected_idle [OF k q, of m e]
      have np: "\<not> pending (settle m k (Rejected e) r)"
        using i(1) by (simp add: pending_def)
      have "fst (enterStates sl pushHistory (settle m k (Rejected e) r))
                 = Inr (next_pid (settle m k (Rejected e) r)) \<and>
            since (settle m k (Rejected e) r)
                  (snd (enterStates sl pushHistory (settle m k (Rejected e) r)))
                 = [CtrlState sl False]" for sl pushHistory
        using np by (simp add: enterStates_def startTransition_def since_def Let_def)
      with np i(2) show "\<not> pending (settle m k (Rejected e) r) \<and>
            ops (settle m k (Rejected e) r) = take k (ops r) @ drop (Suc k) (ops r) \<and>
            (\<forall>sl pushHistory.
               fst (enterStates sl pushHistory (settle m k (Rejected e) r))
                 = Inr (next_pid (settle m k (Rejected e) r)) \<and>
               since (settle m k (Rejected e) r)
                     (snd (enterStates sl pushHistory (settle m k (Rejected e) r)))
                 = [CtrlState sl False])"
        by blast
    qed
    have queued: "\<forall>q. queue r = Some q \<longrightarrow>
            pending (settle m k (Rejected e) r) \<and>
            pendingTransitionPromise (settle m k (Rejected e) r) = Some (next_pid r) \<and>
            CtrlState (q_stateList q) (q_upgrade q) \<in> set (since r (settle m k (Rejected e) r)) \<and>
            last (ops (settle m k (Rejected e) r)) =
              QueuedChain (next_pid r) (q_stateList q) (q_fromHistory q) (q_push q) (q_promise q) \<and>
            ops (settle m k (Rejected e) r) = take k (ops r) @ drop (Suc k) (ops r) @
                     [QueuedChain (next_pid r) (q_stateList q) (q_fromHistory q)
                        (q_push q) (q_promise q)]"
    proof (intro allI impI)
      fix q assume q: "queue r = Some q"
      have c: "CtrlState (q_stateList q) (q_upgrade q)
                 \<in> set (since r (settle m k (Rejected e) r))"
        unfolding t using q by simp
      note o = settle_rejected_fields(4) [OF k q, of m e]
      have l: "last (ops (settle m k (Rejected e) r)) =
              QueuedChain (next_pid r) (q_stateList q) (q_fromHistory q) (q_push q) (q_promise q)"
        using o by simp
      show "pending (settle m k (Rejected e) r) \<and>
            pendingTransitionPromise (settle m k (Rejected e) r) = Some (next_pid r) \<and>
            CtrlState (q_stateList q) (q_upgrade q) \<in> set (since r (settle m k (Rejected e) r)) \<and>
            last (ops (settle m k (Rejected e) r)) =
              QueuedChain (next_pid r) (q_stateList q) (q_fromHistory q) (q_push q) (q_promise q) \<and>
            ops (settle m k (Rejected e) r) = take k (ops r) @ drop (Suc k) (ops r) @
                     [QueuedChain (next_pid r) (q_stateList q) (q_fromHistory q)
                        (q_push q) (q_promise q)]"
        by (rule conjI [OF settle_rejected_fields(3) [OF k q]
              conjI [OF settle_rejected_pending [OF k q] conjI [OF c conjI [OF l o]]]])
    qed
    show ?thesis
      unfolding Let_def
      by (rule conjI [OF settle_rejected_fields(1) [OF k] conjI [OF w conjI [OF st
            conjI [OF t conjI [OF settle_rejected_fields(2) [OF k] conjI [OF idle queued]]]]]])
  qed
  show ?thesis
    using a b by blast
qed

theorem controller_failure_is_local_witness:
  "((\<not> isSettle (CallEnterStates [''foo''] None) \<and>
     \<not> (isReplace (CallEnterStates [''foo''] None) \<and> \<not> pending newRouter)) \<and>
    0 < length (ops (run testMap
        [CallEnterStates [''foo''] None, CallQueueEnterStates [''bar''] None] newRouter)) \<and>
    queue (run testMap
        [CallEnterStates [''foo''] None, CallQueueEnterStates [''bar''] None] newRouter)
      = Some \<lparr> q_stateList = [''bar''], q_fromHistory = None, q_upgrade = False,
               q_push = True, q_promise = 1 \<rparr> \<and>
    0 < length (ops (run testMap [CallEnterStates [''foo''] None] newRouter)) \<and>
    queue (run testMap [CallEnterStates [''foo''] None] newRouter) = None) \<and>
   (currentStateList (step testMap (CallEnterStates [''foo''] None) newRouter)
      = currentStateList newRouter \<and>
    filter isWrite (since newRouter (step testMap (CallEnterStates [''foo''] None) newRouter))
      = []) \<and>
   pending (settle testMap 0 (Rejected ''quux'') (run testMap
        [CallEnterStates [''foo''] None, CallQueueEnterStates [''bar''] None] newRouter)) \<and>
   \<not> pending (settle testMap 0 (Rejected ''quux'')
        (run testMap [CallEnterStates [''foo''] None] newRouter)) \<and>
   (let r = run testMap
        [CallEnterStates [''foo''] None, CallQueueEnterStates [''bar''] None] newRouter;
        r' = settle testMap 0 (Rejected ''quux'') r in
      currentStateList r' = None \<and>
      since r r' = [CtrlState [''bar''] False, Settled 0 (Rejected ''quux'')] \<and>
      queue r' = None \<and> pending r' \<and>
      ops r' = [QueuedChain 2 [''bar''] None True 1]) \<and>
   (let r = run testMap [CallEnterStates [''foo''] None] newRouter;
        r' = settle testMap 0 (Rejected ''quux'') r in
      currentStateList r' = None \<and>
      since r r' = [Settled 0 (Rejected ''quux'')] \<and>
      queue r' = None \<and> pendingTransitionPromise r' = None \<and> ops r' = [] \<and>
      fst (enterStates [''bar''] None r') = Inr 1)"
proof -
  have h0: "\<not> isSettle (CallEnterStates [''foo''] None) \<and>
     \<not> (isReplace (CallEnterStates [''foo''] None) \<and> \<not> pending newRouter)"
    by simp
  have h1: "0 < length (ops (run testMap
        [CallEnterStates [''foo''] None, CallQueueEnterStates [''bar''] None] newRouter))"
    by code_simp
  have h2: "queue (run testMap
        [CallEnterStates [''foo''] None, CallQueueEnterStates [''bar''] None] newRouter)
      = Some \<lparr> q_stateList = [''bar''], q_fromHistory = None, q_upgrade = False,
               q_push = True, q_promise = 1 \<rparr>"
    by code_simp
  have h3: "0 < length (ops (run testMap [CallEnterStates [''foo''] None] newRouter))"
    by code_simp
  have h4: "queue (run testMap [CallEnterStates [''foo''] None] newRouter) = None"
    by code_simp
  have v1: "(let r = run testMap
        [CallEnterStates [''foo''] None, CallQueueEnterStates [''bar''] None] newRouter;
        r' = settle testMap 0 (Rejected ''quux'') r in
      currentStateList r' = None \<and>
      since r r' = [CtrlState [''bar''] False, Settled 0 (Rejected ''quux'')] \<and>
      queue r' = None \<and> pending r' \<and>
      ops r' = [QueuedChain 2 [''bar''] None True 1])"
    by code_simp
  have v2: "(let r = run testMap [CallEnterStates [''foo''] None] newRouter;
        r' = settle testMap 0 (Rejected ''quux'') r in
      currentStateList r' = None \<and>
      since r r' = [Settled 0 (Rejected ''quux'')] \<and>
      queue r' = None \<and> pendingTransitionPromise r' = None \<and> ops r' = [] \<and>
      fst (enterStates [''bar''] None r') = Inr 1)"
    by code_simp
  note t1 = controller_failure_is_local [of newRouter testMap 0
      "run testMap [CallEnterStates [''foo''] None, CallQueueEnterStates [''bar''] None] newRouter"
      "''quux''"]
  note t2 = controller_failure_is_local [of newRouter testMap 0
      "run testMap [CallEnterStates [''foo''] None] newRouter" "''quux''"]
  from t1 h0 have c0: "currentStateList (step testMap (CallEnterStates [''foo''] None) newRouter)
      = currentStateList newRouter \<and>
    filter isWrite (since newRouter (step testMap (CallEnterStates [''foo''] None) newRouter))
      = []"
    by blast
  from t1 h1 h2 have c1: "pending (settle testMap 0 (Rejected ''quux'') (run testMap
        [CallEnterStates [''foo''] None, CallQueueEnterStates [''bar''] None] newRouter))"
    unfolding Let_def by blast
  from t2 h3 h4 have c2: "\<not> pending (settle testMap 0 (Rejected ''quux'')
        (run testMap [CallEnterStates [''foo''] None] newRouter))"
    unfolding Let_def by blast
  show ?thesis
    by (rule conjI [OF conjI [OF h0 conjI [OF h1 conjI [OF h2 conjI [OF h3 h4]]]]
          conjI [OF c0 conjI [OF c1 conjI [OF c2 conjI [OF v1 v2]]]]])
qed

section \<open>Settling after the controller succeeded\<close>

text \<open>
  C10. The chain of \<^verbatim>\<open>enterStates\<close>, when the controller succeeds and \<^verbatim>\<open>toURL\<close> throws
  \<open>e\<close>: \<^verbatim>\<open>currentStateList\<close> has been set already (to the recorded replacement if there is
  one, else to the requested StateList), no \<^verbatim>\<open>pushState\<close> or \<^verbatim>\<open>replaceState\<close> happens,
  no event is emitted, and the promise of the transition rejects with \<open>e\<close>. The only other
  action of the step is the call of the controller for a queued request.
\<close>

theorem enterStates_toURL_throws:
  assumes "k < length (ops r)"
    and "ops r ! k = EnterChain p sl push"
    and "toURL m (replaceOr r sl) = Inl e"
  shows "let r' = settle m k Resolved r in
           currentStateList r' = Some (replaceOr r sl) \<and>
           filter isWrite (since r r') = [] \<and>
           filter isEmit (since r r') = [] \<and>
           since r r' =
             (case queue r of None \<Rightarrow> []
              | Some q \<Rightarrow> [CtrlState (q_stateList q) (q_upgrade q)]) @
             [Settled p (Rejected e)]"
  using assms by (auto simp: settle_defs op_defs split: option.splits)

theorem enterStates_toURL_throws_witness:
  "(0 < length (ops (run testMap [CallEnterStates [''qux''] None] newRouter)) \<and>
    ops (run testMap [CallEnterStates [''qux''] None] newRouter) ! 0 = EnterChain 0 [''qux''] True \<and>
    toURL testMap (replaceOr (run testMap [CallEnterStates [''qux''] None] newRouter) [''qux''])
      = Inl ''Should not occur in this test case'') \<and>
   (let r' = settle testMap 0 Resolved (run testMap [CallEnterStates [''qux''] None] newRouter) in
      currentStateList r' =
        Some (replaceOr (run testMap [CallEnterStates [''qux''] None] newRouter) [''qux'']) \<and>
      filter isWrite (since (run testMap [CallEnterStates [''qux''] None] newRouter) r') = [] \<and>
      filter isEmit (since (run testMap [CallEnterStates [''qux''] None] newRouter) r') = [] \<and>
      since (run testMap [CallEnterStates [''qux''] None] newRouter) r' =
        (case queue (run testMap [CallEnterStates [''qux''] None] newRouter) of None \<Rightarrow> []
         | Some q \<Rightarrow> [CtrlState (q_stateList q) (q_upgrade q)]) @
        [Settled 0 (Rejected ''Should not occur in this test case'')]) \<and>
   currentStateList (run testMap [CallEnterStates [''qux''] None, CtrlSettles 0 Resolved] newRouter)
     = Some [''qux''] \<and>
   trace (run testMap [CallEnterStates [''qux''] None, CtrlSettles 0 Resolved] newRouter)
     = [CtrlState [''qux''] False, Settled 0 (Rejected ''Should not occur in this test case'')]"
proof -
  have h1: "0 < length (ops (run testMap [CallEnterStates [''qux''] None] newRouter))"
    by code_simp
  have h2: "ops (run testMap [CallEnterStates [''qux''] None] newRouter) ! 0
              = EnterChain 0 [''qux''] True"
    by code_simp
  have h3: "toURL testMap (replaceOr (run testMap [CallEnterStates [''qux''] None] newRouter) [''qux''])
              = Inl ''Should not occur in this test case''"
    by code_simp
  have v1: "currentStateList (run testMap [CallEnterStates [''qux''] None, CtrlSettles 0 Resolved]
              newRouter) = Some [''qux'']"
    by code_simp
  have v2: "trace (run testMap [CallEnterStates [''qux''] None, CtrlSettles 0 Resolved] newRouter)
     = [CtrlState [''qux''] False, Settled 0 (Rejected ''Should not occur in this test case'')]"
    by code_simp
  note c = enterStates_toURL_throws [OF h1 h2 h3]
  show ?thesis
    by (rule conjI [OF conjI [OF h1 conjI [OF h2 h3]] conjI [OF c conjI [OF v1 v2]]])
qed

section \<open>Order of the history write\<close>






section \<open>Notifications of a failed transition\<close>

text \<open>
  C5. A failed transition should emit a "transition failed" notification with the StateList
  and the error, and a "navigation failed" one when the request came from a popstate event
  (test/Router.js listens for them as \<^verbatim>\<open>transitionFailed\<close> and \<^verbatim>\<open>historyPopStateFailed\<close>).
  The code emits neither. First run: \<^verbatim>\<open>enterStates(['foo'])\<close> and the controller rejects
  with \<open>quux\<close>. Second run: the listener is attached, a popstate event carries the record of
  \<open>/foo\<close>, and the controller rejects with \<open>quux\<close>. In both, the rejection adds nothing to the
  trace but the settling of the promise.
\<close>

theorem failed_transition_emits_nothing:
  "trace (run testMap [CallEnterStates [''foo''] None, CtrlSettles 0 (Rejected ''quux'')] newRouter)
     = [CtrlState [''foo''] False, Settled 0 (Rejected ''quux'')] \<and>
   trace (run testMap [CallAttachPopStateListener HNull ''/'', PopState (HRecord (Own ''/foo'')),
                       CtrlSettles 0 (Rejected ''quux'')] newRouter)
     = [AddPopStateListener, CtrlState [''foo''] False,
        Emit (HistoryPopState [''foo''] ''/foo'' 0) None, Settled 0 (Rejected ''quux'')]"
  by code_simp

section \<open>Clearing the recorded replacement\<close>

text \<open>
  C7. At the settlement of every transition the recorded \<^verbatim>\<open>replaceStateList\<close> override
  should be cleared. The chain built by \<^verbatim>\<open>_handleHistoryState\<close> does not clear it. The
  run: the listener is attached, a popstate event carries the record of \<open>/foo\<close> while the
  router is idle, \<^verbatim>\<open>replaceStateList(['bar'])\<close> is called while that transition runs, and
  the controller resolves. After the settlement the router is idle, \<^verbatim>\<open>currentStateList\<close>
  is \<open>['foo']\<close> and the override \<open>['bar']\<close> is still recorded. A following
  \<^verbatim>\<open>enterStates(['baz'])\<close> that succeeds then ends with \<^verbatim>\<open>currentStateList\<close> \<open>['bar']\<close> and
  pushes \<open>/bar\<close>.
\<close>

theorem popstate_transition_keeps_override:
  "pendingReplace (run testMap [CallAttachPopStateListener HNull ''/'', PopState (HRecord (Own ''/foo'')),
       CallReplaceStateList [''bar''], CtrlSettles 0 Resolved] newRouter) = Some [''bar''] \<and>
   pendingTransitionPromise (run testMap [CallAttachPopStateListener HNull ''/'',
       PopState (HRecord (Own ''/foo'')), CallReplaceStateList [''bar''], CtrlSettles 0 Resolved]
       newRouter) = None \<and>
   currentStateList (run testMap [CallAttachPopStateListener HNull ''/'', PopState (HRecord (Own ''/foo'')),
       CallReplaceStateList [''bar''], CtrlSettles 0 Resolved] newRouter) = Some [''foo''] \<and>
   currentStateList (run testMap [CallAttachPopStateListener HNull ''/'', PopState (HRecord (Own ''/foo'')),
       CallReplaceStateList [''bar''], CtrlSettles 0 Resolved,
       CallEnterStates [''baz''] None, CtrlSettles 0 Resolved] newRouter) = Some [''bar''] \<and>
   trace (run testMap [CallAttachPopStateListener HNull ''/'', PopState (HRecord (Own ''/foo'')),
       CallReplaceStateList [''bar''], CtrlSettles 0 Resolved,
       CallEnterStates [''baz''] None, CtrlSettles 0 Resolved] newRouter)
     = [AddPopStateListener, CtrlState [''foo''] False,
        Emit (HistoryPopState [''foo''] ''/foo'' 0) None,
        Emit (TransitionComplete [''foo''] ''/foo'') (Some [''foo'']), Settled 0 Resolved,
        CtrlState [''baz''] False, PushState (Own ''/bar'') ''/bar'',
        Emit (TransitionComplete [''baz''] ''/bar'') (Some [''bar'']), Settled 1 Resolved]"
  by code_simp

section \<open>Capturing the initial record\<close>

text \<open>
  C8, as stated: once the initial record is captured, a second \<^verbatim>\<open>upgradeInitialState\<close> does
  not change it. The run: \<^verbatim>\<open>upgradeInitialState\<close> at location \<open>/foo\<close> with no
  \<^verbatim>\<open>history.state\<close>, the controller resolves, \<^verbatim>\<open>enterStates(['bar'])\<close> resolves and pushes
  the record of \<open>/bar\<close>, and \<^verbatim>\<open>upgradeInitialState\<close> is called again, the window now holding
  that record. The stored record was the one of \<open>/foo\<close> and becomes the one of \<open>/bar\<close>.
\<close>

theorem second_upgrade_captures_again:
  "initialHistoryState (run testMap [CallUpgradeInitialState HNull ''/foo'', CtrlSettles 0 Resolved,
       CallEnterStates [''bar''] None, CtrlSettles 0 Resolved] newRouter) = Some (Own ''/foo'') \<and>
   trace (run testMap [CallUpgradeInitialState HNull ''/foo'', CtrlSettles 0 Resolved,
       CallEnterStates [''bar''] None, CtrlSettles 0 Resolved] newRouter)
     = [CtrlState [''foo''] True, Emit (UpgradeInitialState [''foo''] ''/foo'' 0) None,
        Emit (TransitionComplete [''foo''] ''/foo'') (Some [''foo'']), Settled 0 Resolved,
        CtrlState [''bar''] False, PushState (Own ''/bar'') ''/bar'',
        Emit (TransitionComplete [''bar''] ''/bar'') (Some [''bar'']), Settled 1 Resolved] \<and>
   initialHistoryState (run testMap [CallUpgradeInitialState HNull ''/foo'', CtrlSettles 0 Resolved,
       CallEnterStates [''bar''] None, CtrlSettles 0 Resolved,
       CallUpgradeInitialState (HRecord (Own ''/bar'')) ''/bar''] newRouter) = Some (Own ''/bar'')"
  by code_simp

lemma upgrade_captures:
  "initialHistoryState (snd (upgradeInitialState m hs path r)) =
     Some (case hs of HRecord (Own u) \<Rightarrow> Own u | _ \<Rightarrow> Own path)"
  by (auto simp: op_defs split: option.splits hrecord.splits hstate.splits sum.splits)

lemma attach_keeps_captured:
  "initialHistoryState r \<noteq> None \<longrightarrow>
     initialHistoryState (attachPopStateListener hs path r) = initialHistoryState r"
  by (auto simp: attachPopStateListener_def act_def Let_def)

lemma others_keep_initial:
  "\<not> isCapture ev \<Longrightarrow> initialHistoryState (step m ev r) = initialHistoryState r"
proof (cases ev)
  case (CtrlSettles k out)
  show ?thesis
    unfolding CtrlSettles
    by (cases "ops r ! k"; cases out)
       (auto simp: settle_defs op_defs split: option.splits sum.splits)
qed (auto simp: op_defs split: option.splits hrecord.splits hstate.splits sum.splits)

text \<open>
  C8, amended. Attaching the popstate listener never overwrites a captured record: it
  captures only when none is stored. \<^verbatim>\<open>upgradeInitialState\<close> captures on every call: the
  stored record becomes \<^verbatim>\<open>history.state\<close> if that carries the router's tag, and the record
  of the current location otherwise. No other operation changes the stored record.
\<close>

theorem initial_record_capture:
  "(initialHistoryState r \<noteq> None \<longrightarrow>
      initialHistoryState (attachPopStateListener hs path r) = initialHistoryState r) \<and>
   initialHistoryState (snd (upgradeInitialState m hs path r)) =
     Some (case hs of HRecord (Own u) \<Rightarrow> Own u | _ \<Rightarrow> Own path) \<and>
   (\<forall>ev. \<not> isCapture ev \<longrightarrow> initialHistoryState (step m ev r) = initialHistoryState r)"
  using upgrade_captures attach_keeps_captured others_keep_initial by blast

theorem initial_record_capture_witness:
  "(initialHistoryState (run testMap [CallUpgradeInitialState HNull ''/foo''] newRouter) \<noteq> None \<and>
    \<not> isCapture (CallEnterStates [''bar''] None)) \<and>
   initialHistoryState (attachPopStateListener HNull ''/bar''
       (run testMap [CallUpgradeInitialState HNull ''/foo''] newRouter)) =
     initialHistoryState (run testMap [CallUpgradeInitialState HNull ''/foo''] newRouter) \<and>
   initialHistoryState (step testMap (CallEnterStates [''bar''] None)
       (run testMap [CallUpgradeInitialState HNull ''/foo''] newRouter)) =
     initialHistoryState (run testMap [CallUpgradeInitialState HNull ''/foo''] newRouter) \<and>
   initialHistoryState (run testMap [CallUpgradeInitialState HNull ''/foo''] newRouter)
     = Some (Own ''/foo'')"
proof -
  have h1: "initialHistoryState (run testMap [CallUpgradeInitialState HNull ''/foo''] newRouter)
              \<noteq> None"
    by code_simp
  have h2: "\<not> isCapture (CallEnterStates [''bar''] None)"
    by simp
  have v: "initialHistoryState (run testMap [CallUpgradeInitialState HNull ''/foo''] newRouter)
     = Some (Own ''/foo'')"
    by code_simp
  note t = initial_record_capture
    [of "run testMap [CallUpgradeInitialState HNull ''/foo''] newRouter" HNull "''/bar''" testMap]
  from t h1 have c1: "initialHistoryState (attachPopStateListener HNull ''/bar''
       (run testMap [CallUpgradeInitialState HNull ''/foo''] newRouter)) =
     initialHistoryState (run testMap [CallUpgradeInitialState HNull ''/foo''] newRouter)"
    by blast
  from t h2 have c2: "initialHistoryState (step testMap (CallEnterStates [''bar''] None)
       (run testMap [CallUpgradeInitialState HNull ''/foo''] newRouter)) =
     initialHistoryState (run testMap [CallUpgradeInitialState HNull ''/foo''] newRouter)"
    by blast
  show ?thesis
    by (rule conjI [OF conjI [OF h1 h2] conjI [OF c1 conjI [OF c2 v]]])
qed

section \<open>Replacing the StateList while a transition runs\<close>







text \<open>
  A \<^verbatim>\<open>replaceStateList\<close> made by a listener of \<^verbatim>\<open>transitionComplete\<close> is a different
  matter: the router is still pending there, so the override is only recorded, and
  \<^verbatim>\<open>.finally\<close> clears it. The run: \<^verbatim>\<open>enterStates(['foo'])\<close>, the controller resolves, and
  the listener calls \<^verbatim>\<open>replaceStateList(['bar'])\<close>.
\<close>

lemma replace_in_listener_dropped:
  "currentStateList (settleWith testMap 0 Resolved [CallReplaceStateList [''bar'']]
       (run testMap [CallEnterStates [''foo''] None] newRouter)) = Some [''foo''] \<and>
   pendingReplace (settleWith testMap 0 Resolved [CallReplaceStateList [''bar'']]
       (run testMap [CallEnterStates [''foo''] None] newRouter)) = None \<and>
   trace (settleWith testMap 0 Resolved [CallReplaceStateList [''bar'']]
       (run testMap [CallEnterStates [''foo''] None] newRouter))
     = [CtrlState [''foo''] False, PushState (Own ''/foo'') ''/foo'',
        Emit (TransitionComplete [''foo''] ''/foo'') (Some [''foo'']), Settled 0 Resolved]"
  by code_simp



section \<open>Coalescing in the queue\<close>

lemma two_queued:
  assumes "pending r"
  shows "fst (queueEnterStates B pushB r) =
           Inr (case queue r of None \<Rightarrow> next_pid r | Some e \<Rightarrow> q_promise e)"
    and "queueEnterStates C pushC (snd (queueEnterStates B pushB r)) =
     (Inr (case queue r of None \<Rightarrow> next_pid r | Some e \<Rightarrow> q_promise e),
      r\<lparr> queue := Some \<lparr> q_stateList = C, q_fromHistory = None, q_upgrade = False,
                         q_push = pushFlag pushC,
                         q_promise = (case queue r of None \<Rightarrow> next_pid r | Some e \<Rightarrow> q_promise e) \<rparr>,
         next_pid := (case queue r of None \<Rightarrow> Suc (next_pid r) | Some e \<Rightarrow> next_pid r) \<rparr>)"
  using assms by (auto simp: op_defs split: option.splits)

lemma settle_drains:
  assumes "ops r = [a]" and "queue r = Some e"
  shows "queue (settle m 0 out r) = None"
    and "ops (settle m 0 out r) =
           [QueuedChain (next_pid r) (q_stateList e) (q_fromHistory e) (q_push e) (q_promise e)]"
    and "filter isCtrl (since r (settle m 0 out r)) = [CtrlState (q_stateList e) (q_upgrade e)]"
    and "allBefore (\<lambda>x. isWrite x \<or> isEmit x) isCtrl (since r (settle m 0 out r))"
  using assms
  by (cases a; cases out; auto simp: settle_defs op_defs split: option.splits sum.splits)+

lemma settle_queued:
  assumes "ops r = [QueuedChain p sl None push q]" and "queue r = None"
  shows "since r (settle m 0 out r) =
     (case out of
        Rejected e \<Rightarrow> [Settled q (Rejected e), Settled p Resolved]
      | Resolved \<Rightarrow>
          (case toURL m (replaceOr r sl) of
             Inl e \<Rightarrow> [Settled q (Rejected e), Settled p Resolved]
           | Inr u \<Rightarrow> [if push then PushState (Own u) u else ReplaceState (Own u) u,
                       Emit (TransitionComplete sl u) (Some (replaceOr r sl)),
                       Settled q Resolved, Settled p Resolved]))"
  using assms
  by (cases out) (auto simp: settle_defs op_defs split: option.splits sum.splits)

text \<open>
  C1. A transition \<open>a\<close> is running, and \<^verbatim>\<open>queueEnterStates(B)\<close>, then
  \<^verbatim>\<open>queueEnterStates(C)\<close> are called before it settles. Both calls return the same promise
  \<open>q\<close> and neither calls the controller. When \<open>a\<close> settles, with any outcome, the controller
  is called exactly once, for \<open>C\<close>, after every history write and notification of that
  step; the transition to \<open>C\<close> is then the only one running. When it settles, no further call
  of the controller is made, and \<open>q\<close> settles with the outcome of that transition: rejected
  with the error of the controller or of \<^verbatim>\<open>toURL\<close>, resolved otherwise, after the history
  write and the notification. So the controller is never called for \<open>B\<close>, and the promises
  returned for \<open>B\<close> and for \<open>C\<close> settle alike.
\<close>

theorem queue_coalescing:
  assumes "pending r" and "ops r = [a]"
  shows "let rB = queueEnterStates B pushB r;
             rC = queueEnterStates C pushC (snd rB);
             q = (case queue r of None \<Rightarrow> next_pid r | Some e \<Rightarrow> q_promise e);
             r3 = settle m 0 outA (snd rC);
             r4 = settle m 0 outC r3
         in fst rB = Inr q \<and> fst rC = Inr q \<and>
            trace (snd rC) = trace r \<and>
            filter isCtrl (since (snd rC) r3) = [CtrlState C False] \<and>
            allBefore (\<lambda>x. isWrite x \<or> isEmit x) isCtrl (since (snd rC) r3) \<and>
            ops r3 = [QueuedChain (next_pid (snd rC)) C None (pushFlag pushC) q] \<and>
            since r3 r4 =
              (case outC of
                 Rejected e \<Rightarrow> [Settled q (Rejected e), Settled (next_pid (snd rC)) Resolved]
               | Resolved \<Rightarrow>
                   (case toURL m (replaceOr r3 C) of
                      Inl e \<Rightarrow> [Settled q (Rejected e), Settled (next_pid (snd rC)) Resolved]
                    | Inr u \<Rightarrow>
                        [if pushFlag pushC then PushState (Own u) u else ReplaceState (Own u) u,
                         Emit (TransitionComplete C u) (Some (replaceOr r3 C)),
                         Settled q Resolved, Settled (next_pid (snd rC)) Resolved]))"
proof -
  define q where "q = (case queue r of None \<Rightarrow> next_pid r | Some e \<Rightarrow> q_promise e)"
  define e where "e = \<lparr> q_stateList = C, q_fromHistory = None, q_upgrade = False,
                        q_push = pushFlag pushC, q_promise = q \<rparr>"
  define r2 where "r2 = r\<lparr> queue := Some e,
     next_pid := (case queue r of None \<Rightarrow> Suc (next_pid r) | Some e \<Rightarrow> next_pid r) \<rparr>"
  have b: "fst (queueEnterStates B pushB r) = Inr q"
    using two_queued(1) [OF assms(1)] by (simp add: q_def)
  have c: "queueEnterStates C pushC (snd (queueEnterStates B pushB r)) = (Inr q, r2)"
    using two_queued(2) [OF assms(1)] by (simp add: q_def e_def r2_def)
  have o2: "ops r2 = [a]" and q2: "queue r2 = Some e" and t2: "trace r2 = trace r"
    using assms(2) by (simp_all add: r2_def)
  note d = settle_drains [OF o2 q2, of m outA]
  have o3: "ops (settle m 0 outA r2) = [QueuedChain (next_pid r2) C None (pushFlag pushC) q]"
    using d(2) by (simp add: e_def)
  have k3: "filter isCtrl (since r2 (settle m 0 outA r2)) = [CtrlState C False]"
    using d(3) by (simp add: e_def)
  note f = settle_queued [OF o3 d(1), of m outC]
  show ?thesis
    unfolding Let_def c fst_conv snd_conv q_def [symmetric]
    by (rule conjI [OF b conjI [OF refl conjI [OF t2 conjI [OF k3 conjI [OF d(4)
          conjI [OF o3 f]]]]]])
qed

theorem queue_coalescing_witness:
  "(pending (run testMap [CallEnterStates [''foo''] None] newRouter) \<and>
    ops (run testMap [CallEnterStates [''foo''] None] newRouter) = [EnterChain 0 [''foo''] True]) \<and>
   (let rB = queueEnterStates [''bar''] None (run testMap [CallEnterStates [''foo''] None] newRouter);
        rC = queueEnterStates [''baz''] None (snd rB);
        q = (case queue (run testMap [CallEnterStates [''foo''] None] newRouter) of
               None \<Rightarrow> next_pid (run testMap [CallEnterStates [''foo''] None] newRouter)
             | Some e \<Rightarrow> q_promise e);
        r3 = settle testMap 0 Resolved (snd rC);
        r4 = settle testMap 0 (Rejected ''quux'') r3
    in fst rB = Inr q \<and> fst rC = Inr q \<and>
       trace (snd rC) = trace (run testMap [CallEnterStates [''foo''] None] newRouter) \<and>
       filter isCtrl (since (snd rC) r3) = [CtrlState [''baz''] False] \<and>
       allBefore (\<lambda>x. isWrite x \<or> isEmit x) isCtrl (since (snd rC) r3) \<and>
       ops r3 = [QueuedChain (next_pid (snd rC)) [''baz''] None (pushFlag None) q] \<and>
       since r3 r4 =
         (case Rejected ''quux'' of
            Rejected e \<Rightarrow> [Settled q (Rejected e), Settled (next_pid (snd rC)) Resolved]
          | Resolved \<Rightarrow>
              (case toURL testMap (replaceOr r3 [''baz'']) of
                 Inl e \<Rightarrow> [Settled q (Rejected e), Settled (next_pid (snd rC)) Resolved]
               | Inr u \<Rightarrow>
                   [if pushFlag None then PushState (Own u) u else ReplaceState (Own u) u,
                    Emit (TransitionComplete [''baz''] u) (Some (replaceOr r3 [''baz''])),
                    Settled q Resolved, Settled (next_pid (snd rC)) Resolved]))) \<and>
   fst (queueEnterStates [''bar''] None (run testMap [CallEnterStates [''foo''] None] newRouter))
     = Inr 1 \<and>
   fst (queueEnterStates [''baz''] None (run testMap [CallEnterStates [''foo''] None,
          CallQueueEnterStates [''bar''] None] newRouter)) = Inr 1 \<and>
   trace (run testMap [CallEnterStates [''foo''] None, CallQueueEnterStates [''bar''] None,
            CallQueueEnterStates [''baz''] None, CtrlSettles 0 Resolved,
            CtrlSettles 0 (Rejected ''quux'')] newRouter)
     = [CtrlState [''foo''] False, PushState (Own ''/foo'') ''/foo'',
        Emit (TransitionComplete [''foo''] ''/foo'') (Some [''foo'']),
        CtrlState [''baz''] False, Settled 0 Resolved,
        Settled 1 (Rejected ''quux''), Settled 2 Resolved]"
proof -
  have h1: "pending (run testMap [CallEnterStates [''foo''] None] newRouter)"
    by code_simp
  have h2: "ops (run testMap [CallEnterStates [''foo''] None] newRouter)
              = [EnterChain 0 [''foo''] True]"
    by code_simp
  have v1: "fst (queueEnterStates [''bar''] None
              (run testMap [CallEnterStates [''foo''] None] newRouter)) = Inr 1"
    by code_simp
  have v2: "fst (queueEnterStates [''baz''] None (run testMap [CallEnterStates [''foo''] None,
          CallQueueEnterStates [''bar''] None] newRouter)) = Inr 1"
    by code_simp
  have v3: "trace (run testMap [CallEnterStates [''foo''] None, CallQueueEnterStates [''bar''] None,
            CallQueueEnterStates [''baz''] None, CtrlSettles 0 Resolved,
            CtrlSettles 0 (Rejected ''quux'')] newRouter)
     = [CtrlState [''foo''] False, PushState (Own ''/foo'') ''/foo'',
        Emit (TransitionComplete [''foo''] ''/foo'') (Some [''foo'']),
        CtrlState [''baz''] False, Settled 0 Resolved,
        Settled 1 (Rejected ''quux''), Settled 2 Resolved]"
    by code_simp
  note c = queue_coalescing [OF h1 h2]
  show ?thesis
    by (rule conjI [OF conjI [OF h1 h2] conjI [OF c conjI [OF v1 conjI [OF v2 v3]]]])
qed

end
